theory Spec2Isabelle
  imports Main "HOL-Library.AList" "HOL-Library.Sublist"
begin

section \<open>Text and the string operations of the parser\<close>

text \<open>
  The parser of \<^verbatim>\<open>watt.py\<close> works on Python \<^verbatim>\<open>str\<close> values. A text is modelled as a
  \<^typ>\<open>string\<close>, each \<^typ>\<open>char\<close> standing for one code point below 256; the character
  classes below are Python's on that range.
\<close>

definition isspace :: "char \<Rightarrow> bool" where
  \<comment> \<open>\<^verbatim>\<open>str.isspace\<close>, also what \<^verbatim>\<open>\s\<close> matches in a \<^verbatim>\<open>str\<close> pattern\<close>
  "isspace c = (let n = (of_char c :: nat) in
     (9 \<le> n \<and> n \<le> 13) \<or> (28 \<le> n \<and> n \<le> 32) \<or> n = 133 \<or> n = 160)"

definition isword :: "char \<Rightarrow> bool" where
  \<comment> \<open>what \<^verbatim>\<open>\w\<close> matches in a \<^verbatim>\<open>str\<close> pattern: alphanumeric or underscore\<close>
  "isword c = (let n = (of_char c :: nat) in
     (48 \<le> n \<and> n \<le> 57) \<or> (65 \<le> n \<and> n \<le> 90) \<or> n = 95 \<or> (97 \<le> n \<and> n \<le> 122) \<or>
     n = 170 \<or> n = 178 \<or> n = 179 \<or> n = 181 \<or> n = 185 \<or> n = 186 \<or>
     (188 \<le> n \<and> n \<le> 190) \<or> (192 \<le> n \<and> n \<le> 214) \<or> (216 \<le> n \<and> n \<le> 246) \<or> 248 \<le> n)"

definition strip :: "string \<Rightarrow> string" where
  \<comment> \<open>\<^verbatim>\<open>s.strip()\<close>\<close>
  "strip s = rev (dropWhile isspace (rev (dropWhile isspace s)))"

definition strip_chars :: "string \<Rightarrow> string \<Rightarrow> string" where
  \<comment> \<open>\<^verbatim>\<open>s.strip(chars)\<close>: every leading and trailing character of the set goes\<close>
  "strip_chars chars s =
     rev (dropWhile (\<lambda>c. c \<in> set chars) (rev (dropWhile (\<lambda>c. c \<in> set chars) s)))"

fun split :: "char \<Rightarrow> string \<Rightarrow> string list" where
  \<comment> \<open>\<^verbatim>\<open>s.split(sep)\<close> for a one-character separator: never the empty list\<close>
  "split sep [] = [[]]"
| "split sep (c # cs) =
     (if c = sep then [] # split sep cs
      else (case split sep cs of [] \<Rightarrow> [[c]] | p # ps \<Rightarrow> (c # p) # ps))"

fun split1 :: "char \<Rightarrow> string \<Rightarrow> string list" where
  \<comment> \<open>\<^verbatim>\<open>s.split(sep, 1)\<close>: cut at the first separator only\<close>
  "split1 sep [] = [[]]"
| "split1 sep (c # cs) =
     (if c = sep then [[], cs]
      else (case split1 sep cs of [] \<Rightarrow> [[c]] | p # ps \<Rightarrow> (c # p) # ps))"

definition startswith :: "string \<Rightarrow> string list \<Rightarrow> bool" where
  \<comment> \<open>\<^verbatim>\<open>s.startswith((p1, p2, ...))\<close>\<close>
  "startswith s ps = list_ex (\<lambda>p. take (length p) s = p) ps"

fun contains :: "string \<Rightarrow> string \<Rightarrow> bool" where
  \<comment> \<open>\<^verbatim>\<open>m in s\<close>\<close>
  "contains m [] = (m = [])"
| "contains m (c # cs) = (take (length m) (c # cs) = m \<or> contains m cs)"

section \<open>Regular expressions\<close>

text \<open>
  The fragment of Python's \<^verbatim>\<open>re\<close> that the two patterns of the parser use, with the
  backtracking order of the library: a greedy repetition tries the longest run first, a
  lazy one the shortest first. Both patterns are compiled with \<^verbatim>\<open>re.DOTALL\<close>, so the
  dot is any character.
\<close>

datatype cset = Dot | Space | Word | NoneOf string

fun in_cset :: "cset \<Rightarrow> char \<Rightarrow> bool" where
  "in_cset Dot c = True"
| "in_cset Space c = isspace c"
| "in_cset Word c = isword c"
| "in_cset (NoneOf cs) c = (c \<notin> set cs)"

datatype regex =
    Lit string
  | Star cset
  | Plus cset
  | StarLazy cset
  | Group string regex
  | Cat regex regex

type_synonym groups = "(string \<times> string) list"

fun star_greedy :: "cset \<Rightarrow> string \<Rightarrow> string list" where
  "star_greedy k [] = [[]]"
| "star_greedy k (c # cs) = (if in_cset k c then star_greedy k cs @ [c # cs] else [c # cs])"

fun star_lazy :: "cset \<Rightarrow> string \<Rightarrow> string list" where
  "star_lazy k [] = [[]]"
| "star_lazy k (c # cs) = (c # cs) # (if in_cset k c then star_lazy k cs else [])"

fun match_here :: "regex \<Rightarrow> string \<Rightarrow> (groups \<times> string) list" where
  \<comment> \<open>every way the pattern matches a prefix of the text, in the order backtracking tries
      them: the groups captured and the text left over\<close>
  "match_here (Lit l) s = (if take (length l) s = l then [([], drop (length l) s)] else [])"
| "match_here (Star k) s = map (Pair []) (star_greedy k s)"
| "match_here (Plus k) s =
     (case s of [] \<Rightarrow> []
      | c # cs \<Rightarrow> if in_cset k c then map (Pair []) (star_greedy k cs) else [])"
| "match_here (StarLazy k) s = map (Pair []) (star_lazy k s)"
| "match_here (Group n r) s =
     map (\<lambda>(g, rest). (g @ [(n, take (length s - length rest) s)], rest)) (match_here r s)"
| "match_here (Cat r1 r2) s =
     concat (map (\<lambda>(g1, s1). map (\<lambda>(g2, s2). (g1 @ g2, s2)) (match_here r2 s1))
                 (match_here r1 s))"

fun search :: "regex \<Rightarrow> string \<Rightarrow> groups option" where
  \<comment> \<open>\<^verbatim>\<open>pattern.search(s)\<close>: the first match at the leftmost position that has one\<close>
  "search r [] = (case match_here r [] of [] \<Rightarrow> None | (g, rest) # _ \<Rightarrow> Some g)"
| "search r (c # cs) =
     (case match_here r (c # cs) of [] \<Rightarrow> search r cs | (g, rest) # _ \<Rightarrow> Some g)"

definition group :: "groups \<Rightarrow> string \<Rightarrow> string" where
  \<comment> \<open>\<^verbatim>\<open>m.group(name)\<close>; both patterns capture each of their groups in every match\<close>
  "group g n = (case map_of g n of Some t \<Rightarrow> t | None \<Rightarrow> [])"

definition EOT :: string where \<open>EOT = ''<|eot_id|>''\<close>
definition EOM :: string where \<open>EOM = ''<|eom_id|>''\<close>
definition PYTHON_TAG :: string where \<open>PYTHON_TAG = ''<|python_tag|>''\<close>

definition JSON_RE :: regex where
  \<open>JSON_RE =
     Cat (Lit ''{"name"'') (Cat (Star Space) (Cat (Lit '':'') (Cat (Star Space)
    (Cat (Lit ''"'') (Cat (Group ''name'' (Plus (NoneOf ''"''))) (Cat (Lit ''"'')
    (Cat (Star Space) (Cat (Lit '','') (Cat (Star Space) (Cat (Lit ''"parameters"'')
    (Cat (Star Space) (Cat (Lit '':'') (Cat (Star Space)
    (Cat (Group ''params'' (Cat (Lit ''{'') (Cat (StarLazy Dot) (Lit ''}''))))
         (Lit ''}'')))))))))))))))\<close>

definition PY_RE :: regex where
  \<open>PY_RE =
     Cat (Lit ''<|python_tag|>'') (Cat (Group ''name'' (Plus Word)) (Cat (Lit ''.call('')
    (Cat (Group ''args'' (StarLazy Dot)) (Lit '')''))))\<close>

section \<open>The JSON decoder\<close>

text \<open>
  \<^verbatim>\<open>json.loads\<close> of the standard library, as far as the parser depends on it: which
  texts it accepts, and the document it reads. A decoded value is kept as its syntax
  tree: a string or a number is the text of its literal (escapes not expanded, so the
  Python value is the one the literal denotes), an object is the list of its members in
  the order written. The decoder's resource limits (recursion depth, the length of an
  integer literal) are left out.
\<close>

datatype json =
    JObject "(string \<times> json) list"
  | JArray "json list"
  | JString string
  | JNumber string
  | JTrue
  | JFalse
  | JNull

datatype token = LBrace | RBrace | LBracket | RBracket | Comma | Colon | Atom json

definition isdigit :: "char \<Rightarrow> bool" where
  "isdigit c = (c \<in> set ''0123456789'')"

definition ishex :: "char \<Rightarrow> bool" where
  "ishex c = (c \<in> set ''0123456789abcdefABCDEF'')"

fun scan_string :: "string \<Rightarrow> nat option" where
  \<comment> \<open>on the text after an opening quote: how many characters the string takes, closing
      quote included; control characters and unknown escapes are refused\<close>
  "scan_string [] = None"
| "scan_string (c # cs) =
     (if c = CHR 0x22 then Some 1
      else if c = CHR 0x5C then
        (case cs of
           [] \<Rightarrow> None
         | e # es \<Rightarrow>
             if e \<in> set [CHR 0x22, CHR 0x5C, CHR ''/'', CHR ''b'', CHR ''f'', CHR ''n'', CHR ''r'', CHR ''t'']
             then map_option (\<lambda>n. n + 2) (scan_string es)
             else if e = CHR ''u'' \<and> 4 \<le> length es \<and> list_all ishex (take 4 es)
             then map_option (\<lambda>n. n + 6) (scan_string (drop 4 es))
             else None)
      else if (of_char c :: nat) < 32 then None
      else map_option Suc (scan_string cs))"

definition scan_number :: "string \<Rightarrow> nat option" where
  \<comment> \<open>the length of the longest prefix of the shape
      \<^verbatim>\<open>-?(0|[1-9][0-9]*)(\.[0-9]+)?([eE][-+]?[0-9]+)?\<close>\<close>
  "scan_number s =
     (let sign = (if take 1 s = ''-'' then 1 else 0 :: nat);
          s1 = drop sign s;
          int_len = (case s1 of
                       [] \<Rightarrow> 0
                     | d # ds \<Rightarrow> if d = CHR ''0'' then 1
                                else if isdigit d then length (takeWhile isdigit s1)
                                else 0)
      in if int_len = 0 then None
         else
           let s2 = drop int_len s1;
               frac_len = (case s2 of
                             c # d # ds \<Rightarrow> if c = CHR ''.'' \<and> isdigit d
                                           then 1 + length (takeWhile isdigit (d # ds))
                                           else 0
                           | _ \<Rightarrow> 0);
               s3 = drop frac_len s2;
               exp_len = (case s3 of
                            [] \<Rightarrow> 0
                          | e # es \<Rightarrow>
                              if e = CHR ''e'' \<or> e = CHR ''E'' then
                                (let sg = (if take 1 es = ''-'' \<or> take 1 es = ''+'' then 1 else 0 :: nat);
                                     digits = length (takeWhile isdigit (drop sg es))
                                 in if digits = 0 then 0 else 1 + sg + digits)
                              else 0)
           in Some (sign + int_len + frac_len + exp_len))"

definition emit :: "token \<Rightarrow> token list option \<Rightarrow> token list option" where
  "emit t r = map_option (Cons t) r"

fun tokens :: "string \<Rightarrow> token list option" where
  \<comment> \<open>the lexical pass of the decoder; \<open>None\<close> when some character starts no token\<close>
  "tokens [] = Some []"
| "tokens (c # cs) =
     (if c \<in> set [CHR '' '', CHR 0x09, CHR 0x0A, CHR 0x0D] then tokens cs
      else if c = CHR ''{'' then emit LBrace (tokens cs)
      else if c = CHR ''}'' then emit RBrace (tokens cs)
      else if c = CHR ''['' then emit LBracket (tokens cs)
      else if c = CHR '']'' then emit RBracket (tokens cs)
      else if c = CHR '','' then emit Comma (tokens cs)
      else if c = CHR '':'' then emit Colon (tokens cs)
      else if c = CHR 0x22 then
        (case scan_string cs of
           None \<Rightarrow> None
         | Some n \<Rightarrow> emit (Atom (JString (take (n - 1) cs))) (tokens (drop n cs)))
      else if take 4 (c # cs) = ''null'' then emit (Atom JNull) (tokens (drop 3 cs))
      else if take 4 (c # cs) = ''true'' then emit (Atom JTrue) (tokens (drop 3 cs))
      else if take 5 (c # cs) = ''false'' then emit (Atom JFalse) (tokens (drop 4 cs))
      else if take 3 (c # cs) = ''NaN'' then emit (Atom (JNumber ''NaN'')) (tokens (drop 2 cs))
      else if take 8 (c # cs) = ''Infinity'' then
        emit (Atom (JNumber ''Infinity'')) (tokens (drop 7 cs))
      else if take 9 (c # cs) = ''-Infinity'' then
        emit (Atom (JNumber ''-Infinity'')) (tokens (drop 8 cs))
      else
        (case scan_number (c # cs) of
           None \<Rightarrow> None
         | Some n \<Rightarrow> emit (Atom (JNumber (take n (c # cs)))) (tokens (drop (n - 1) cs))))"

datatype frame =
    InArray "json list"
  | InObject "(string \<times> json) list"
  | InMember "(string \<times> json) list" string

datatype expect = Value | ValueOrClose | Key | KeyOrClose | AColon | CommaOrClose

datatype pstate = Running expect "frame list" | Finished json

fun push_value :: "json \<Rightarrow> frame list \<Rightarrow> pstate option" where
  \<comment> \<open>a value is complete: it is the document, an element, or the value of a member\<close>
  "push_value v [] = Some (Finished v)"
| "push_value v (InArray xs # st) = Some (Running CommaOrClose (InArray (xs @ [v]) # st))"
| "push_value v (InMember ms k # st) = Some (Running CommaOrClose (InObject (ms @ [(k, v)]) # st))"
| "push_value v (InObject ms # st) = None"

fun begin_value :: "token \<Rightarrow> frame list \<Rightarrow> pstate option" where
  "begin_value (Atom v) st = push_value v st"
| "begin_value LBrace st = Some (Running KeyOrClose (InObject [] # st))"
| "begin_value LBracket st = Some (Running ValueOrClose (InArray [] # st))"
| "begin_value t st = None"

fun begin_member :: "token \<Rightarrow> frame list \<Rightarrow> pstate option" where
  "begin_member (Atom (JString k)) (InObject ms # st) = Some (Running AColon (InMember ms k # st))"
| "begin_member t st = None"

fun close :: "token \<Rightarrow> frame list \<Rightarrow> pstate option" where
  "close RBracket (InArray xs # st) = push_value (JArray xs) st"
| "close RBrace (InObject ms # st) = push_value (JObject ms) st"
| "close t st = None"

fun step :: "pstate \<Rightarrow> token \<Rightarrow> pstate option" where
  "step (Finished v) t = None"
| "step (Running Value st) t = begin_value t st"
| "step (Running ValueOrClose st) t = (if t = RBracket then close t st else begin_value t st)"
| "step (Running Key st) t = begin_member t st"
| "step (Running KeyOrClose st) t = (if t = RBrace then close t st else begin_member t st)"
| "step (Running AColon st) t = (if t = Colon then Some (Running Value st) else None)"
| "step (Running CommaOrClose st) t =
     (if t = Comma then
        (case st of
           InArray xs # st' \<Rightarrow> Some (Running Value st)
         | InObject ms # st' \<Rightarrow> Some (Running Key st)
         | _ \<Rightarrow> None)
      else close t st)"

fun run :: "pstate \<Rightarrow> token list \<Rightarrow> json option" where
  "run (Finished v) [] = Some v"
| "run (Running e st) [] = None"
| "run p (t # ts) = (case step p t of None \<Rightarrow> None | Some p' \<Rightarrow> run p' ts)"

datatype error = JSONDecodeError | ValueError

definition json_loads :: "string \<Rightarrow> error + json" where
  "json_loads s =
     (case tokens s of
        None \<Rightarrow> Inl JSONDecodeError
      | Some ts \<Rightarrow>
          (case run (Running Value []) ts of
             None \<Rightarrow> Inl JSONDecodeError
           | Some v \<Rightarrow> Inr v))"

section \<open>The tool-call parser\<close>

text \<open>
  The values the parser builds: what \<^verbatim>\<open>json.loads\<close> read, a plain string, or the
  \<^verbatim>\<open>kwargs\<close> dictionary, kept as an association list in insertion order.
\<close>

datatype pyval = Json json | Str string | Dict "(string \<times> pyval) list"

text \<open>
  Modelled from the spec: the result types \<^verbatim>\<open>ToolCall\<close>,
  \<^verbatim>\<open>ExtractedToolCallInformation\<close> and \<^verbatim>\<open>DeltaMessage\<close> are imported by
  \<^verbatim>\<open>watt.py\<close> and declared outside it; they are records of the fields the parser
  sets (an invocation is a name and its arguments).
\<close>

record ToolCall =
  name :: string
  arguments :: pyval

record ExtractedToolCallInformation =
  tools_called :: bool
  tool_calls :: "ToolCall list"
  content :: "string option"

record DeltaMessage =
  delta_role :: string
  delta_content :: "string option"
  delta_tool_calls :: "ToolCall list"

definition parse_pair :: "string \<Rightarrow> error + string \<times> pyval" where
  \<comment> \<open>the body of the loop over the pieces: unpacking \<^verbatim>\<open>k, v\<close> from a piece without
      \<^verbatim>\<open>=\<close> raises \<^verbatim>\<open>ValueError\<close>\<close>
  "parse_pair pair =
     (case split1 CHR ''='' pair of
        [k, v] \<Rightarrow>
          (if startswith (strip v) [''{'', ''[''] then
             (case json_loads (strip v) of
                Inl e \<Rightarrow> Inl e
              | Inr j \<Rightarrow> Inr (strip k, Json j))
           else Inr (strip k, Str (strip_chars [CHR 0x22, CHR 0x27] (strip v))))
      | _ \<Rightarrow> Inl ValueError)"

fun parse_pairs :: "(string \<times> pyval) list \<Rightarrow> string list \<Rightarrow> error + (string \<times> pyval) list" where
  \<comment> \<open>the loop \<^verbatim>\<open>for pair in args_s.split(",")\<close>, filling \<^verbatim>\<open>kwargs\<close>\<close>
  "parse_pairs kwargs [] = Inr kwargs"
| "parse_pairs kwargs (pair # pairs) =
     (case parse_pair pair of
        Inl e \<Rightarrow> Inl e
      | Inr (k, v) \<Rightarrow> parse_pairs (AList.update k v kwargs) pairs)"

definition find_tools :: "string \<Rightarrow> error + ToolCall list" where
  \<comment> \<open>steps 1 and 2 of \<^verbatim>\<open>extract_tool_calls\<close>: the list \<^verbatim>\<open>tools\<close>\<close>
  "find_tools model_output =
     (case search JSON_RE model_output of
        Some m \<Rightarrow>
          (case json_loads (group m ''params'') of
             Inl e \<Rightarrow> Inl e
           | Inr a \<Rightarrow> Inr [\<lparr>name = group m ''name'', arguments = Json a\<rparr>])
      | None \<Rightarrow>
          (case search PY_RE model_output of
             Some m \<Rightarrow>
               (case (if strip (group m ''args'') \<noteq> []
                      then parse_pairs [] (split CHR '','' (group m ''args''))
                      else Inr []) of
                  Inl e \<Rightarrow> Inl e
                | Inr kwargs \<Rightarrow> Inr [\<lparr>name = group m ''name'', arguments = Dict kwargs\<rparr>])
           | None \<Rightarrow> Inr []))"

definition extract_tool_calls :: "string \<Rightarrow> error + ExtractedToolCallInformation" where
  \<comment> \<open>the \<^verbatim>\<open>request\<close> argument is never read and is left out\<close>
  "extract_tool_calls model_output =
     (case find_tools model_output of
        Inl e \<Rightarrow> Inl e
      | Inr tools \<Rightarrow>
          if tools \<noteq> [] then
            Inr \<lparr>tools_called = True, tool_calls = tools, content = None\<rparr>
          else
            Inr \<lparr>tools_called = False, tool_calls = [], content = Some model_output\<rparr>)"

definition extract_tool_calls_streaming ::
  "string \<Rightarrow> string \<Rightarrow> string \<Rightarrow> int list \<Rightarrow> int list \<Rightarrow> int list \<Rightarrow> error + DeltaMessage option" where
  "extract_tool_calls_streaming previous_text current_text delta_text
       previous_token_ids current_token_ids delta_token_ids =
     (if \<not> contains EOT current_text \<and> \<not> contains EOM current_text then Inr None
      else
        (case extract_tool_calls current_text of
           Inl e \<Rightarrow> Inl e
         | Inr info \<Rightarrow>
             if \<not> tools_called info then Inr None
             else Inr (Some \<lparr>delta_role = ''assistant'', delta_content = None,
                              delta_tool_calls = tool_calls info\<rparr>)))"

section \<open>Facts about the model\<close>

subsection \<open>Substrings and search\<close>

text \<open>
  \<open>contains\<close> is the substring relation; \<open>search\<close> returns the first outcome at the
  leftmost position that has one, and skips a prefix in which the leading literal of the
  pattern does not occur.
\<close>

lemma contains_sublist: "contains m s \<longleftrightarrow> sublist m s"
proof (induction s)
  case Nil
  then show ?case by auto
next
  case (Cons c cs)
  have "take (length m) (c # cs) = m \<longleftrightarrow> prefix m (c # cs)"
    by (metis append_take_drop_id prefix_def append_eq_conv_conj prefixE)
  then show ?case using Cons by (cases m) (auto simp: sublist_Cons_right)
qed

lemma search_hit: "match_here r s = (g, rest) # ms \<Longrightarrow> search r s = Some g"
  by (cases s) auto

lemma search_None_iff:
  "search r s = None \<longleftrightarrow> (\<forall>i\<le>length s. match_here r (drop i s) = [])"
proof (induction s)
  case Nil
  then show ?case by (auto split: list.splits)
next
  case (Cons c cs)
  show ?case
  proof (cases "match_here r (c # cs)")
    case Nil
    have "(\<forall>i\<le>length (c # cs). match_here r (drop i (c # cs)) = []) \<longleftrightarrow>
          (\<forall>i\<le>length cs. match_here r (drop i cs) = [])" (is "?L \<longleftrightarrow> ?R")
    proof
      assume l: ?L
      show ?R
      proof (intro allI impI)
        fix i assume "i \<le> length cs"
        then have "match_here r (drop (Suc i) (c # cs)) = []" using l by (metis Suc_le_mono length_Cons)
        then show "match_here r (drop i cs) = []" by simp
      qed
    next
      assume r: ?R
      show ?L
      proof (intro allI impI)
        fix i assume i: "i \<le> length (c # cs)"
        show "match_here r (drop i (c # cs)) = []"
          using Nil r i by (cases i) auto
      qed
    qed
    with Nil Cons show ?thesis by simp
  next
    case (Cons a list)
    then have "search r (c # cs) \<noteq> None" by (auto split: prod.splits)
    moreover have "\<not> (\<forall>i\<le>length (c # cs). match_here r (drop i (c # cs)) = [])"
      using Cons by (auto intro: exI[of _ 0])
    ultimately show ?thesis by blast
  qed
qed

lemma search_Some_leftmost:
  "search r s = Some g \<Longrightarrow>
     \<exists>i\<le>length s. (\<forall>j<i. match_here r (drop j s) = []) \<and>
                    (\<exists>rest ms. match_here r (drop i s) = (g, rest) # ms)"
proof (induction s)
  case Nil
  then show ?case by (auto split: list.splits)
next
  case (Cons c cs)
  show ?case
  proof (cases "match_here r (c # cs)")
    case Nil
    with Cons.prems have "search r cs = Some g" by simp
    from Cons.IH[OF this] obtain i rest ms where i: "i \<le> length cs"
      "\<forall>j<i. match_here r (drop j cs) = []" "match_here r (drop i cs) = (g, rest) # ms"
      by blast
    have "\<forall>j<Suc i. match_here r (drop j (c # cs)) = []"
    proof (intro allI impI)
      fix j assume "j < Suc i"
      then show "match_here r (drop j (c # cs)) = []" using Nil i(2) by (cases j) auto
    qed
    then show ?thesis using i(1,3) by (intro exI[of _ "Suc i"]) auto
  next
    case (Cons a list)
    with Cons.prems show ?thesis by (intro exI[of _ 0]) (auto split: prod.splits)
  qed
qed

lemma no_earlier_occurrence:
  assumes "\<not> sublist l (pre @ butlast l)" and "j < length pre" and "l \<noteq> []"
  shows "take (length l) (drop j (pre @ l @ rest)) \<noteq> l"
proof
  define t where "t = pre @ l @ rest"
  define u where "u = pre @ butlast l"
  assume "take (length l) (drop j (pre @ l @ rest)) = l"
  then have eq: "take (length l) (drop j t) = l" by (simp only: t_def)
  have u: "u = take (length pre + (length l - 1)) t"
    using \<open>l \<noteq> []\<close> by (simp add: butlast_conv_take t_def u_def)
  have le: "j + length l \<le> length pre + (length l - 1)"
    using assms(2,3) by (cases l) auto
  have "take (j + length l) u = take (j + length l) t"
    unfolding u using le by (simp add: min_def)
  also have "\<dots> = take j t @ l"
    using eq by (simp only: take_add)
  finally have "u = (take j t @ l) @ drop (j + length l) u"
    by (metis append_take_drop_id)
  then have "sublist l u"
    unfolding sublist_def by (metis append.assoc)
  with assms(1) show False by (simp add: u_def)
qed

lemma search_first_occurrence:
  assumes "l \<noteq> []" and "\<not> sublist l (pre @ butlast l)"
    and "match_here (Cat (Lit l) r) (l @ rest) = (g, s') # ms"
  shows "search (Cat (Lit l) r) (pre @ l @ rest) = Some g"
  using assms(2)
proof (induction pre)
  case Nil
  then show ?case using assms(3) by (simp add: search_hit)
next
  case (Cons c pre)
  have "take (length l) (drop 0 ((c # pre) @ l @ rest)) \<noteq> l"
    by (rule no_earlier_occurrence[OF Cons.prems _ assms(1)]) simp
  then have "match_here (Cat (Lit l) r) (c # pre @ l @ rest) = []" by simp
  moreover have "\<not> sublist l (pre @ butlast l)"
    using Cons.prems by (simp add: sublist_Cons_right)
  ultimately show ?case using Cons.IH by simp
qed

subsection \<open>The first outcome of a match\<close>

text \<open>
  How the first outcome of a pattern is found from the outcomes of its parts: a greedy run
  followed by a character outside its class takes the whole run first; outcomes that the
  rest of the pattern refuses are passed over.
\<close>

lemma concat_map_empty: "(\<And>x. x \<in> set xs \<Longrightarrow> f x = []) \<Longrightarrow> concat (map f xs) = []"
  by (induction xs) auto

lemma lit_head: "match_here (Lit l) (l @ s) = [([], s)]"
  by simp

lemma lit_cat: "match_here (Cat (Lit l) r) (l @ s) = match_here r s"
  by (simp add: case_prod_beta)

lemma lit_step:
  "match_here r s = (g, s') # ms \<Longrightarrow> \<exists>ms'. match_here (Cat (Lit l) r) (l @ s) = (g, s') # ms'"
  by (simp only: lit_cat) blast

lemma group_head:
  "match_here r s = (g, rest) # ms \<Longrightarrow>
     \<exists>ms'. match_here (Group n r) s = (g @ [(n, take (length s - length rest) s)], rest) # ms'"
  by simp

lemma cat_head:
  "match_here r1 s = (g1, s1) # ms1 \<Longrightarrow> match_here r2 s1 = (g2, s2) # ms2 \<Longrightarrow>
     \<exists>ms. match_here (Cat r1 r2) s = (g1 @ g2, s2) # ms"
  by simp

lemma cat_first:
  assumes "match_here r1 s = fails @ (g1, s1) # ms1"
    and "\<And>g s'. (g, s') \<in> set fails \<Longrightarrow> match_here r2 s' = []"
    and "match_here r2 s1 = (g2, s2) # ms2"
  shows "\<exists>ms. match_here (Cat r1 r2) s = (g1 @ g2, s2) # ms"
proof -
  define F where "F = (\<lambda>(g1, s1). map (\<lambda>(g2, s2). (g1 @ g2, s2)) (match_here r2 s1))"
  have e: "concat (map F fails) = []"
    using assms(2) by (intro concat_map_empty) (auto simp: F_def)
  have "match_here (Cat r1 r2) s = concat (map F fails) @ F (g1, s1) @ concat (map F ms1)"
    by (simp add: assms(1) F_def)
  also have "\<dots> = (g1 @ g2, s2) # (map (\<lambda>(g2, s2). (g1 @ g2, s2)) ms2 @ concat (map F ms1))"
    unfolding e by (simp add: F_def assms(3))
  finally show ?thesis by blast
qed

lemma star_greedy_run:
  assumes "\<And>c. c \<in> set nm \<Longrightarrow> in_cset k c" and "r = [] \<or> \<not> in_cset k (hd r)"
  shows "\<exists>ms. star_greedy k (nm @ r) = r # ms"
  using assms(1)
proof (induction nm)
  case Nil
  then show ?case using assms(2) by (cases r) auto
next
  case (Cons c nm)
  then obtain ms where "star_greedy k (nm @ r) = r # ms" by auto
  then show ?case using Cons.prems by simp
qed

lemma plus_run:
  assumes "nm \<noteq> []" and "\<And>c. c \<in> set nm \<Longrightarrow> in_cset k c" and "r = [] \<or> \<not> in_cset k (hd r)"
  shows "\<exists>ms. match_here (Plus k) (nm @ r) = ([], r) # ms"
proof -
  from assms(1) obtain c cs where nm: "nm = c # cs" by (cases nm) auto
  with assms(2) have "\<And>x. x \<in> set cs \<Longrightarrow> in_cset k x" and c: "in_cset k c" by auto
  from star_greedy_run[OF this(1) assms(3)] obtain ms where "star_greedy k (cs @ r) = r # ms" by blast
  then show ?thesis using c by (simp add: nm)
qed

lemma space_step:
  assumes "list_all isspace sp" and "s \<noteq> []" and "\<not> isspace (hd s)"
    and "match_here r s = (g, s') # ms"
  shows "\<exists>ms'. match_here (Cat (Star Space) r) (sp @ s) = (g, s') # ms'"
proof -
  have "\<exists>ms. star_greedy Space (sp @ s) = s # ms"
    using assms(1,3) by (intro star_greedy_run) (auto simp: list_all_iff)
  then obtain p where "match_here (Star Space) (sp @ s) = ([], s) # p" by auto
  from cat_head[OF this assms(4)] show ?thesis by simp
qed

lemma name_step:
  assumes "nm \<noteq> []" and "q \<notin> set nm" and "match_here r (q # s) = (g, s') # ms"
  shows "\<exists>ms'. match_here (Cat (Group n (Plus (NoneOf [q]))) r) (nm @ q # s) = ((n, nm) # g, s') # ms'"
proof -
  have "\<exists>ms. match_here (Plus (NoneOf [q])) (nm @ q # s) = ([], q # s) # ms"
    using assms(1,2) by (intro plus_run) auto
  then obtain p where "match_here (Plus (NoneOf [q])) (nm @ q # s) = ([], q # s) # p" by blast
  from group_head[OF this, of n]
  obtain p' where "match_here (Group n (Plus (NoneOf [q]))) (nm @ q # s) = ([(n, nm)], q # s) # p'"
    by auto
  from cat_head[OF this assms(3)] show ?thesis by simp
qed

lemma lazy_unfold:
  "match_here (Cat (StarLazy Dot) r) (c # cs) =
     match_here r (c # cs) @ match_here (Cat (StarLazy Dot) r) cs"
  by (simp add: case_prod_beta o_def)

lemma star_lazy_Dot: "star_lazy Dot s = map (\<lambda>i. drop i s) [0..<Suc (length s)]"
proof (induction s)
  case Nil
  then show ?case by simp
next
  case (Cons c cs)
  have "map (\<lambda>i. drop i (c # cs)) [0..<Suc (length (c # cs))] =
        (c # cs) # map (\<lambda>i. drop (Suc i) (c # cs)) [0..<Suc (length cs)]"
    by (simp only: upt_conv_Cons[of 0] map_Suc_upt[symmetric] list.map map_map o_def drop_0
          length_Cons zero_less_Suc)
  then show ?case using Cons by simp
qed

subsection \<open>The call-syntax pattern on a call\<close>

text \<open>
  On \<^verbatim>\<open><|python_tag|>name.call(args)\<close> the pattern captures the name and the text up to
  the first closing parenthesis.
\<close>

lemma not_word_dot: \<open>\<not> isword CHR ''.''\<close>
  by (simp add: isword_def)

lemma not_space_paren: \<open>isspace c \<Longrightarrow> c \<noteq> CHR '')''\<close>
  by (auto simp: isspace_def)

lemma lazy_capture_until:
  assumes "\<And>c. c \<in> set ws \<Longrightarrow> c \<noteq> d"
  shows "\<exists>ms. match_here (Cat (Group n (StarLazy Dot)) (Lit [d])) (ws @ d # post) =
           ([(n, ws)], post) # ms"
proof -
  let ?s = "ws @ d # post"
  let ?f = "\<lambda>i. (case (([(n, take (length ?s - length (drop i ?s)) ?s)], drop i ?s)) of (g1, s1) \<Rightarrow>
              map (\<lambda>(g2, s2). (g1 @ g2, s2)) (match_here (Lit [d]) s1))"
  have m: "match_here (Cat (Group n (StarLazy Dot)) (Lit [d])) ?s =
           concat (map ?f [0..<Suc (length ?s)])"
    by (simp add: star_lazy_Dot o_def del: upt_Suc)
  have sp: "[0..<Suc (length ?s)] = [0..<length ws] @ length ws # [Suc (length ws)..<Suc (length ?s)]"
    by (metis le_add1 length_append less_Suc_eq_le upt_add_eq_append upt_conv_Cons zero_le
          length_Cons add_Suc_right)
  have early: "?f i = []" if "i \<in> set [0..<length ws]" for i
  proof -
    from that have i: "i < length ws" by simp
    then have "drop i ?s = (ws ! i) # drop (Suc i) ws @ d # post"
      by (simp add: Cons_nth_drop_Suc)
    moreover have "ws ! i \<noteq> d" using assms i by simp
    ultimately show ?thesis by simp
  qed
  have here: "?f (length ws) = [([(n, ws)], post)]" by simp
  show ?thesis
    unfolding m sp
    by (simp only: map_append concat_append concat_map_empty[of _ ?f, OF early] list.map
          concat.simps here append_Nil append_Cons) blast
qed

lemma py_call_match:
  assumes "nm \<noteq> []" and "\<And>c. c \<in> set nm \<Longrightarrow> isword c" and "\<And>c. c \<in> set a \<Longrightarrow> c \<noteq> CHR '')''"
  shows "\<exists>ms. match_here PY_RE (PYTHON_TAG @ nm @ ''.call('' @ a @ '')'' @ post) =
           ([(''name'', nm), (''args'', a)], post) # ms"
proof -
  let ?r3 = "a @ '')'' @ post"
  let ?r2 = "''.call('' @ ?r3"
  from lazy_capture_until[of a "CHR '')''" "''args''" post] assms(3)
  obtain m3 where m3: "match_here (Cat (Group ''args'' (StarLazy Dot)) (Lit '')'')) ?r3 =
      ([(''args'', a)], post) # m3" by auto
  have "match_here (Lit ''.call('') ?r2 = [([], ?r3)]" by (rule lit_head)
  from cat_head[OF this m3]
  obtain m2 where m2: "match_here (Cat (Lit ''.call('') (Cat (Group ''args'' (StarLazy Dot)) (Lit '')''))) ?r2 =
      ([(''args'', a)], post) # m2" by auto
  have "\<exists>ms. match_here (Plus Word) (nm @ ?r2) = ([], ?r2) # ms"
    by (rule plus_run[OF assms(1)]) (use assms(2) not_word_dot in auto)
  then obtain p where "match_here (Plus Word) (nm @ ?r2) = ([], ?r2) # p" by blast
  from group_head[OF this, of "''name''"]
  obtain p' where "match_here (Group ''name'' (Plus Word)) (nm @ ?r2) = ([(''name'', nm)], ?r2) # p'"
    by auto
  from cat_head[OF this m2]
  obtain m1 where m1: "match_here (Cat (Group ''name'' (Plus Word)) (Cat (Lit ''.call('')
      (Cat (Group ''args'' (StarLazy Dot)) (Lit '')'')))) (nm @ ?r2) =
      ([(''name'', nm), (''args'', a)], post) # m1" by auto
  have "match_here (Lit PYTHON_TAG) (PYTHON_TAG @ nm @ ?r2) = [([], nm @ ?r2)]" by (rule lit_head)
  from cat_head[OF this m1] show ?thesis
    unfolding PY_RE_def PYTHON_TAG_def by auto
qed

lemma py_call_search:
  assumes "\<not> sublist PYTHON_TAG (pre @ butlast PYTHON_TAG)"
    and "nm \<noteq> []" and "\<And>c. c \<in> set nm \<Longrightarrow> isword c" and "\<And>c. c \<in> set a \<Longrightarrow> c \<noteq> CHR '')''"
  shows "search PY_RE (pre @ PYTHON_TAG @ nm @ ''.call('' @ a @ '')'' @ post) =
           Some [(''name'', nm), (''args'', a)]"
proof -
  from py_call_match[OF assms(2,3,4)] obtain ms where
    "match_here PY_RE (PYTHON_TAG @ nm @ ''.call('' @ a @ '')'' @ post) =
           ([(''name'', nm), (''args'', a)], post) # ms" by blast
  then show ?thesis
    using assms(1) unfolding PY_RE_def PYTHON_TAG_def
    by (intro search_first_occurrence) auto
qed

subsection \<open>The structured pattern on a call\<close>

text \<open>
  On \<^verbatim>\<open>{"name": "n", "parameters": {body}}\<close> the pattern captures the name and the
  parameter text up to the first \<^verbatim>\<open>}}\<close>; it is the whole parameter text when no
  \<^verbatim>\<open>}}\<close> occurs before its end.
\<close>

lemma lazy_until_fails:
  "\<exists>fails ms. match_here (Cat (StarLazy Dot) (Lit [d])) (body @ d # t) = fails @ ([], t) # ms \<and>
     (\<forall>(g, r) \<in> set fails. \<exists>i<length body. body ! i = d \<and> r = drop (Suc i) body @ d # t)"
proof (induction body)
  case Nil
  have "match_here (Cat (StarLazy Dot) (Lit [d])) ([] @ d # t) =
          [] @ ([], t) # match_here (Cat (StarLazy Dot) (Lit [d])) t"
    by (simp only: lazy_unfold append_Nil) simp
  then show ?case by (metis empty_iff list.set(1))
next
  case (Cons c body)
  then obtain fails ms where
    ih: "match_here (Cat (StarLazy Dot) (Lit [d])) (body @ d # t) = fails @ ([], t) # ms"
    and fl: "\<forall>(g, r) \<in> set fails. \<exists>i<length body. body ! i = d \<and> r = drop (Suc i) body @ d # t"
    by blast
  let ?first = "if c = d then [([], body @ d # t)] else []"
  have "match_here (Cat (StarLazy Dot) (Lit [d])) ((c # body) @ d # t) =
          (?first @ fails) @ ([], t) # ms"
    using ih by (simp only: lazy_unfold append_Cons) simp
  moreover have "\<forall>(g, r) \<in> set (?first @ fails).
       \<exists>i<length (c # body). (c # body) ! i = d \<and> r = drop (Suc i) (c # body) @ d # t"
  proof (clarify)
    fix g r assume "(g, r) \<in> set (?first @ fails)"
    then consider "c = d" "r = body @ d # t" | "(g, r) \<in> set fails"
      by (auto split: if_splits)
    then show "\<exists>i<length (c # body). (c # body) ! i = d \<and> r = drop (Suc i) (c # body) @ d # t"
    proof cases
      case 1
      then show ?thesis by (intro exI[of _ 0]) simp
    next
      case 2
      with fl obtain i where "i < length body" "body ! i = d" "r = drop (Suc i) body @ d # t"
        by blast
      then show ?thesis by (intro exI[of _ "Suc i"]) simp
    qed
  qed
  ultimately show ?case by blast
qed

lemma double_occurs:
  assumes "i < length body" and "body ! i = d" and "hd (drop (Suc i) body @ [d]) = d"
  shows "sublist [d, d] (body @ [d])"
proof -
  have b: "body = take i body @ d # drop (Suc i) body"
    using assms(1,2) by (metis id_take_nth_drop)
  obtain x xs where x: "drop (Suc i) body @ [d] = x # xs"
    by (cases "drop (Suc i) body @ [d]") auto
  with assms(3) have "x = d" by simp
  have "body @ [d] = take i body @ d # (drop (Suc i) body @ [d])"
    using b by (metis append_Cons append_assoc)
  also have "\<dots> = take i body @ [d, d] @ xs"
    using x \<open>x = d\<close> by simp
  finally show ?thesis unfolding sublist_def by blast
qed

lemma params_capture:
  assumes "\<not> sublist [d, d] (body @ [d])"
  shows "\<exists>ms. match_here (Cat (Group n (Cat (Lit [b]) (Cat (StarLazy Dot) (Lit [d])))) (Lit [d]))
                 (b # body @ d # d # post) = ([(n, b # body @ [d])], post) # ms"
proof -
  let ?s = "body @ d # d # post"
  from lazy_until_fails[of d body "d # post"] obtain fails ms where
    m: "match_here (Cat (StarLazy Dot) (Lit [d])) ?s = fails @ ([], d # post) # ms"
    and fl: "\<forall>(g, r) \<in> set fails. \<exists>i<length body. body ! i = d \<and> r = drop (Suc i) body @ d # d # post"
    by blast
  let ?G = "\<lambda>(g, rest). (g @ [(n, take (length (b # ?s) - length rest) (b # ?s))], rest)"
  have inner: "match_here (Cat (Lit [b]) (Cat (StarLazy Dot) (Lit [d]))) (b # ?s) =
          fails @ ([], d # post) # ms"
    using m lit_cat[of "[b]" _ ?s] by simp
  have grp: "match_here (Group n (Cat (Lit [b]) (Cat (StarLazy Dot) (Lit [d])))) (b # ?s) =
          map ?G fails @ ([(n, b # body @ [d])], d # post) # map ?G ms"
    by (simp only: match_here.simps(5) inner) simp
  have dead: "match_here (Lit [d]) s' = []" if "(g, s') \<in> set (map ?G fails)" for g s'
  proof -
    from that obtain g0 where "(g0, s') \<in> set fails" by auto
    with fl obtain i where i: "i < length body" "body ! i = d"
      and s': "s' = drop (Suc i) body @ d # d # post" by blast
    have "hd (drop (Suc i) body @ [d]) \<noteq> d"
      using double_occurs[OF i] assms by blast
    then have "hd s' \<noteq> d" unfolding s' by (cases "drop (Suc i) body") auto
    moreover have "s' \<noteq> []" unfolding s' by simp
    ultimately show ?thesis by (cases s') auto
  qed
  have live: "match_here (Lit [d]) (d # post) = ([], post) # []" by simp
  from cat_first[OF grp dead live] show ?thesis by simp
qed

lemma json_call_match:
  assumes sp: "list_all isspace s1" "list_all isspace s2" "list_all isspace s3"
      "list_all isspace s4" "list_all isspace s5" "list_all isspace s6"
    and nm: "nm \<noteq> []" \<open>CHR 0x22 \<notin> set nm\<close>
    and body: \<open>\<not> sublist ''}}'' (body @ ''}'')\<close>
  shows \<open>\<exists>ms. match_here JSON_RE
           (''{"name"'' @ s1 @ '':'' @ s2 @ ''"'' @ nm @ ''"'' @ s3 @ '','' @ s4 @
            ''"parameters"'' @ s5 @ '':'' @ s6 @ ''{'' @ body @ ''}}'' @ post) =
         ([(''name'', nm), (''params'', ''{'' @ body @ ''}'')], post) # ms\<close>
proof -
  let ?p = \<open>[(''params'', ''{'' @ body @ ''}'')]\<close>
  let ?np = \<open>(''name'', nm) # ?p\<close>
  let ?r15 = \<open>Cat (Group ''params'' (Cat (Lit ''{'') (Cat (StarLazy Dot) (Lit ''}'')))) (Lit ''}'')\<close>
  let ?t15 = \<open>''{'' @ body @ ''}}'' @ post\<close>
  let ?r13 = \<open>Cat (Lit '':'') (Cat (Star Space) ?r15)\<close>
  let ?t13 = \<open>'':'' @ s6 @ ?t15\<close>
  let ?r11 = \<open>Cat (Lit ''"parameters"'') (Cat (Star Space) ?r13)\<close>
  let ?t11 = \<open>''"parameters"'' @ s5 @ ?t13\<close>
  let ?r9 = \<open>Cat (Lit '','') (Cat (Star Space) ?r11)\<close>
  let ?t9 = \<open>'','' @ s4 @ ?t11\<close>
  let ?r7 = \<open>Cat (Lit ''"'') (Cat (Star Space) ?r9)\<close>
  let ?t7 = \<open>s3 @ ?t9\<close>
  let ?r5 = \<open>Cat (Lit ''"'') (Cat (Group ''name'' (Plus (NoneOf ''"''))) ?r7)\<close>
  let ?t5 = \<open>''"'' @ nm @ ''"'' @ ?t7\<close>
  let ?r3 = \<open>Cat (Lit '':'') (Cat (Star Space) ?r5)\<close>
  let ?t3 = \<open>'':'' @ s2 @ ?t5\<close>
  from params_capture[OF body, of "''params''" "CHR ''{''" post]
  obtain m15 where "match_here ?r15 ?t15 = (?p, post) # m15" by auto
  from space_step[OF sp(6) _ _ this]
  obtain m14 where "match_here (Cat (Star Space) ?r15) (s6 @ ?t15) = (?p, post) # m14"
    by (auto simp: isspace_def)
  from lit_step[OF this, of "'':''"]
  obtain m13 where "match_here ?r13 ?t13 = (?p, post) # m13" by blast
  from space_step[OF sp(5) _ _ this]
  obtain m12 where "match_here (Cat (Star Space) ?r13) (s5 @ ?t13) = (?p, post) # m12"
    by (auto simp: isspace_def)
  from lit_step[OF this, of \<open>''"parameters"''\<close>]
  obtain m11 where "match_here ?r11 ?t11 = (?p, post) # m11" by blast
  from space_step[OF sp(4) _ _ this]
  obtain m10 where "match_here (Cat (Star Space) ?r11) (s4 @ ?t11) = (?p, post) # m10"
    by (auto simp: isspace_def)
  from lit_step[OF this, of \<open>'',''\<close>]
  obtain m9 where "match_here ?r9 ?t9 = (?p, post) # m9" by blast
  from space_step[OF sp(3) _ _ this]
  obtain m8 where "match_here (Cat (Star Space) ?r9) ?t7 = (?p, post) # m8"
    by (auto simp: isspace_def)
  from lit_step[OF this, of \<open>''"''\<close>]
  obtain m7 where "match_here ?r7 (CHR 0x22 # ?t7) = (?p, post) # m7" by auto
  from name_step[OF nm this, of "''name''"]
  obtain m6 where "match_here (Cat (Group ''name'' (Plus (NoneOf [CHR 0x22]))) ?r7)
      (nm @ CHR 0x22 # ?t7) = (?np, post) # m6" by blast
  from lit_step[OF this, of \<open>''"''\<close>]
  obtain m5 where "match_here ?r5 ?t5 = (?np, post) # m5" by auto
  from space_step[OF sp(2) _ _ this]
  obtain m4 where "match_here (Cat (Star Space) ?r5) (s2 @ ?t5) = (?np, post) # m4"
    by (auto simp: isspace_def)
  from lit_step[OF this, of \<open>'':''\<close>]
  obtain m3 where "match_here ?r3 ?t3 = (?np, post) # m3" by blast
  from space_step[OF sp(1) _ _ this]
  obtain m2 where "match_here (Cat (Star Space) ?r3) (s1 @ ?t3) = (?np, post) # m2"
    by (auto simp: isspace_def)
  from lit_step[OF this, of \<open>''{"name"''\<close>] show ?thesis
    unfolding JSON_RE_def by simp
qed

lemma json_call_search:
  assumes \<open>\<not> sublist ''{"name"'' (pre @ butlast ''{"name"'')\<close>
    and "list_all isspace s1" "list_all isspace s2" "list_all isspace s3"
      "list_all isspace s4" "list_all isspace s5" "list_all isspace s6"
    and "nm \<noteq> []" \<open>CHR 0x22 \<notin> set nm\<close> \<open>\<not> sublist ''}}'' (body @ ''}'')\<close>
  shows \<open>search JSON_RE
           (pre @ ''{"name"'' @ s1 @ '':'' @ s2 @ ''"'' @ nm @ ''"'' @ s3 @ '','' @ s4 @
            ''"parameters"'' @ s5 @ '':'' @ s6 @ ''{'' @ body @ ''}}'' @ post) =
         Some [(''name'', nm), (''params'', ''{'' @ body @ ''}'')]\<close>
proof -
  from json_call_match[OF assms(2-10)] obtain ms where
    \<open>match_here JSON_RE
           (''{"name"'' @ s1 @ '':'' @ s2 @ ''"'' @ nm @ ''"'' @ s3 @ '','' @ s4 @
            ''"parameters"'' @ s5 @ '':'' @ s6 @ ''{'' @ body @ ''}}'' @ post) =
         ([(''name'', nm), (''params'', ''{'' @ body @ ''}'')], post) # ms\<close> by blast
  then show ?thesis
    using assms(1) unfolding JSON_RE_def
    by (intro search_first_occurrence) auto
qed

subsection \<open>Decoding the arguments\<close>









lemma find_tools_length: "find_tools model_output = Inr tools \<Longrightarrow> length tools \<le> 1"
  by (auto simp: find_tools_def split: option.splits sum.splits if_splits)

subsection \<open>Outcomes on texts\<close>

text \<open>
  The outcome of the extraction on a text that holds a call, in terms of the text alone.
\<close>

lemma structured_call_outcome:
  assumes \<open>\<not> sublist ''{"name"'' (pre @ butlast ''{"name"'')\<close>
    and "list_all isspace s1" "list_all isspace s2" "list_all isspace s3"
      "list_all isspace s4" "list_all isspace s5" "list_all isspace s6"
    and "nm \<noteq> []" \<open>CHR 0x22 \<notin> set nm\<close> \<open>\<not> sublist ''}}'' (body @ ''}'')\<close>
  shows \<open>extract_tool_calls
           (pre @ ''{"name"'' @ s1 @ '':'' @ s2 @ ''"'' @ nm @ ''"'' @ s3 @ '','' @ s4 @
            ''"parameters"'' @ s5 @ '':'' @ s6 @ ''{'' @ body @ ''}}'' @ post) =
         (case json_loads (''{'' @ body @ ''}'') of
            Inl e \<Rightarrow> Inl e
          | Inr a \<Rightarrow> Inr \<lparr>tools_called = True,
                         tool_calls = [\<lparr>name = nm, arguments = Json a\<rparr>],
                         content = None\<rparr>)\<close>
  by (simp only: extract_tool_calls_def find_tools_def json_call_search[OF assms])
     (simp add: group_def split: sum.splits)

lemma call_syntax_outcome:
  assumes "\<not> sublist PYTHON_TAG (pre @ butlast PYTHON_TAG)"
    and "nm \<noteq> []" "list_all isword nm" \<open>CHR '')'' \<notin> set a\<close>
    and "search JSON_RE (pre @ PYTHON_TAG @ nm @ ''.call('' @ a @ '')'' @ post) = None"
  shows "extract_tool_calls (pre @ PYTHON_TAG @ nm @ ''.call('' @ a @ '')'' @ post) =
         (case (if strip a \<noteq> [] then parse_pairs [] (split CHR '','' a) else Inr []) of
            Inl e \<Rightarrow> Inl e
          | Inr kwargs \<Rightarrow> Inr \<lparr>tools_called = True,
                              tool_calls = [\<lparr>name = nm, arguments = Dict kwargs\<rparr>],
                              content = None\<rparr>)"
proof -
  have "search PY_RE (pre @ PYTHON_TAG @ nm @ ''.call('' @ a @ '')'' @ post) =
          Some [(''name'', nm), (''args'', a)]"
    using assms(2-4) by (intro py_call_search[OF assms(1)]) (auto simp: list_all_iff)
  then show ?thesis
    using assms(5) by (simp add: extract_tool_calls_def find_tools_def group_def split: sum.splits)
qed

section \<open>The literal examples\<close>

text \<open>
  Claim C8. The structured example of the specification: the object after \<^verbatim>\<open>Sure.\<close> is
  found, its parameters are decoded, and the outcome is one invocation of
  \<^verbatim>\<open>get_weather\<close> with the argument \<^verbatim>\<open>city\<close> = \<^verbatim>\<open>Boston\<close>, \<^verbatim>\<open>tools_called\<close> true and
  no content.
\<close>

theorem structured_example_extracts:
  \<open>extract_tool_calls ''Sure.{"name": "get_weather", "parameters": {"city": "Boston"}}<|eot_id|>'' =
     Inr \<lparr>tools_called = True,
          tool_calls = [\<lparr>name = ''get_weather'',
                         arguments = Json (JObject [(''city'', JString ''Boston'')])\<rparr>],
          content = None\<rparr>\<close>
  by code_simp

text \<open>
  Claim C1. The call-syntax example of the specification does not yield an invocation:
  the argument text is cut at every comma, also the one inside the bracketed list, so
  the third piece is \<^verbatim>\<open> tags=["lang"\<close>, its value starts with a bracket, and decoding it
  as JSON fails. The first two pieces decode as the claim says (a quoted string, and the
  bare numeral as the string \<^verbatim>\<open>5\<close>); the extraction as a whole raises the decode error.
\<close>

theorem mixed_arguments_example_raises:
  \<open>search JSON_RE ''<|python_tag|>search.call(query="rust ownership", limit=5, tags=["lang","safety"])<|eom_id|>'' = None \<and>
   search PY_RE ''<|python_tag|>search.call(query="rust ownership", limit=5, tags=["lang","safety"])<|eom_id|>'' =
     Some [(''name'', ''search''), (''args'', ''query="rust ownership", limit=5, tags=["lang","safety"]'')] \<and>
   split CHR '','' ''query="rust ownership", limit=5, tags=["lang","safety"]'' =
     [''query="rust ownership"'', '' limit=5'', '' tags=["lang"'', ''"safety"]''] \<and>
   parse_pair ''query="rust ownership"'' = Inr (''query'', Str ''rust ownership'') \<and>
   parse_pair '' limit=5'' = Inr (''limit'', Str ''5'') \<and>
   parse_pair '' tags=["lang"'' = Inl JSONDecodeError \<and>
   extract_tool_calls ''<|python_tag|>search.call(query="rust ownership", limit=5, tags=["lang","safety"])<|eom_id|>'' =
     Inl JSONDecodeError\<close>
  by code_simp

text \<open>
  Claim C10. A comma inside a quoted value: the argument text \<^verbatim>\<open>msg="a, b"\<close> is cut into
  \<^verbatim>\<open>msg="a\<close> and \<^verbatim>\<open> b"\<close>; the second piece has no \<^verbatim>\<open>=\<close>, unpacking it raises
  \<^verbatim>\<open>ValueError\<close>, which is not the decode error, and no outcome is returned.
\<close>

theorem comma_in_value_raises_ValueError:
  \<open>search PY_RE ''<|python_tag|>f.call(msg="a, b")<|eom_id|>'' =
     Some [(''name'', ''f''), (''args'', ''msg="a, b"'')] \<and>
   split CHR '','' ''msg="a, b"'' = [''msg="a'', '' b"''] \<and>
   split1 CHR ''='' '' b"'' = ['' b"''] \<and>
   extract_tool_calls ''<|python_tag|>f.call(msg="a, b")<|eom_id|>'' = Inl ValueError \<and>
   ValueError \<noteq> JSONDecodeError\<close>
  by code_simp

section \<open>Structured calls\<close>

text \<open>
  Claim C3. Parameters with a nested object that closes at the end of the parameters:
  the text holds a well-formed JSON object, but the lazy repetition of the pattern stops
  at the first \<^verbatim>\<open>}}\<close>, so the captured parameter text is \<^verbatim>\<open>{"a": {"b": 1}\<close>, one brace
  short, and decoding it raises instead of returning the invocation.
\<close>

theorem nested_parameters_raise:
  \<open>json_loads ''{"name": "f", "parameters": {"a": {"b": 1}}}'' =
     Inr (JObject [(''name'', JString ''f''),
                   (''parameters'', JObject [(''a'', JObject [(''b'', JNumber ''1'')])])]) \<and>
   search JSON_RE ''{"name": "f", "parameters": {"a": {"b": 1}}}<|eot_id|>'' =
     Some [(''name'', ''f''), (''params'', ''{"a": {"b": 1}'')] \<and>
   extract_tool_calls ''{"name": "f", "parameters": {"a": {"b": 1}}}<|eot_id|>'' =
     Inl JSONDecodeError\<close>
  by code_simp




section \<open>Call syntax\<close>

text \<open>
  Claim C9. A call in call syntax with nothing, or only white space, between its
  parentheses gives one invocation with the empty argument mapping, and nothing is
  raised. First for any text on which the call-syntax pattern is the one that decides
  and has captured such an argument text; then for a text of the shape
  \<^verbatim>\<open>pre <|python_tag|>name.call(ws) post\<close>, where the tag does not occur earlier and the
  structured pattern matches nowhere: the name found is \<^verbatim>\<open>name\<close>, whatever follows the
  call.
\<close>

theorem empty_call_gives_empty_arguments:
  "(search JSON_RE model_output = None \<longrightarrow> search PY_RE model_output = Some m \<longrightarrow>
    strip (group m ''args'') = [] \<longrightarrow>
      extract_tool_calls model_output =
        Inr \<lparr>tools_called = True,
             tool_calls = [\<lparr>name = group m ''name'', arguments = Dict []\<rparr>],
             content = None\<rparr>) \<and>
   (\<not> sublist PYTHON_TAG (pre @ butlast PYTHON_TAG) \<longrightarrow> nm \<noteq> [] \<longrightarrow>
    list_all isword nm \<longrightarrow> list_all isspace ws \<longrightarrow>
    search JSON_RE (pre @ PYTHON_TAG @ nm @ ''.call('' @ ws @ '')'' @ post) = None \<longrightarrow>
      extract_tool_calls (pre @ PYTHON_TAG @ nm @ ''.call('' @ ws @ '')'' @ post) =
        Inr \<lparr>tools_called = True,
             tool_calls = [\<lparr>name = nm, arguments = Dict []\<rparr>],
             content = None\<rparr>)"
proof (intro conjI impI)
  assume "search JSON_RE model_output = None" "search PY_RE model_output = Some m"
    "strip (group m ''args'') = []"
  then show "extract_tool_calls model_output =
        Inr \<lparr>tools_called = True,
             tool_calls = [\<lparr>name = group m ''name'', arguments = Dict []\<rparr>],
             content = None\<rparr>"
    by (simp add: extract_tool_calls_def find_tools_def)
next
  let ?t = "pre @ PYTHON_TAG @ nm @ ''.call('' @ ws @ '')'' @ post"
  assume first: "\<not> sublist PYTHON_TAG (pre @ butlast PYTHON_TAG)"
    and nm: "nm \<noteq> []" "list_all isword nm" and ws: "list_all isspace ws"
    and nj: "search JSON_RE ?t = None"
  have "search PY_RE ?t = Some [(''name'', nm), (''args'', ws)]"
    using nm ws by (intro py_call_search[OF first]) (auto simp: list_all_iff dest: not_space_paren)
  moreover have "strip ws = []"
    using ws by (auto simp: strip_def list_all_iff dest: set_dropWhileD)
  ultimately show "extract_tool_calls ?t =
        Inr \<lparr>tools_called = True,
             tool_calls = [\<lparr>name = nm, arguments = Dict []\<rparr>],
             content = None\<rparr>"
    using nj by (simp add: extract_tool_calls_def find_tools_def group_def)
qed

theorem empty_call_gives_empty_arguments_witness:
  \<open>search JSON_RE (''Checking.'' @ PYTHON_TAG @ ''now'' @ ''.call('' @ [CHR '' '', CHR 0x0A] @ '')'' @ ''<|eom_id|>'') = None \<and>
   search PY_RE (''Checking.'' @ PYTHON_TAG @ ''now'' @ ''.call('' @ [CHR '' '', CHR 0x0A] @ '')'' @ ''<|eom_id|>'') =
     Some [(''name'', ''now''), (''args'', [CHR '' '', CHR 0x0A])] \<and>
   strip (group [(''name'', ''now''), (''args'', [CHR '' '', CHR 0x0A])] ''args'') = [] \<and>
   \<not> sublist PYTHON_TAG (''Checking.'' @ butlast PYTHON_TAG) \<and>
   list_all isword ''now'' \<and> list_all isspace [CHR '' '', CHR 0x0A] \<and>
   extract_tool_calls (''Checking.'' @ PYTHON_TAG @ ''now'' @ ''.call('' @ [CHR '' '', CHR 0x0A] @ '')'' @ ''<|eom_id|>'') =
     Inr \<lparr>tools_called = True, tool_calls = [\<lparr>name = ''now'', arguments = Dict []\<rparr>],
          content = None\<rparr>\<close>
proof -
  let ?t = \<open>''Checking.'' @ PYTHON_TAG @ ''now'' @ ''.call('' @ [CHR '' '', CHR 0x0A] @ '')'' @ ''<|eom_id|>''\<close>
  let ?m = \<open>[(''name'', ''now''), (''args'', [CHR '' '', CHR 0x0A])]\<close>
  have h1: "search JSON_RE ?t = None" by code_simp
  have h2: "search PY_RE ?t = Some ?m" by code_simp
  have h3: "strip (group ?m ''args'') = []" by code_simp
  have h4: \<open>\<not> sublist PYTHON_TAG (''Checking.'' @ butlast PYTHON_TAG)\<close>
    unfolding contains_sublist[symmetric] by code_simp
  have h5: \<open>''now'' \<noteq> []\<close> by simp
  have h6: \<open>list_all isword ''now''\<close> by code_simp
  have h7: \<open>list_all isspace [CHR '' '', CHR 0x0A]\<close> by code_simp
  note inst = empty_call_gives_empty_arguments[where model_output = ?t and m = ?m
      and pre = \<open>''Checking.''\<close> and nm = \<open>''now''\<close> and ws = \<open>[CHR '' '', CHR 0x0A]\<close>
      and post = \<open>''<|eom_id|>''\<close>]
  from inst h1 h2 h3 have general: "extract_tool_calls ?t =
     Inr \<lparr>tools_called = True, tool_calls = [\<lparr>name = group ?m ''name'', arguments = Dict []\<rparr>],
          content = None\<rparr>" by blast
  from inst h4 h5 h6 h7 h1 have shaped: "extract_tool_calls ?t =
     Inr \<lparr>tools_called = True, tool_calls = [\<lparr>name = ''now'', arguments = Dict []\<rparr>],
          content = None\<rparr>" by blast
  show ?thesis
    by (intro conjI h1 h2 h3 h4 h6 h7 shaped)
qed

section \<open>Streaming\<close>

text \<open>
  Claim C5. While the accumulated text holds neither \<^verbatim>\<open><|eot_id|>\<close> nor \<^verbatim>\<open><|eom_id|>\<close>,
  the streaming extraction returns no output, whatever else the text holds; so a result
  or an error can only come from an evaluation whose buffer holds a terminator.
\<close>

theorem streaming_waits_for_terminator:
  "\<not> sublist EOT current_text \<Longrightarrow> \<not> sublist EOM current_text \<Longrightarrow>
     extract_tool_calls_streaming previous_text current_text delta_text
       previous_token_ids current_token_ids delta_token_ids = Inr None"
  by (simp add: extract_tool_calls_streaming_def contains_sublist)

theorem streaming_waits_for_terminator_witness:
  \<open>\<not> sublist EOT ''{"name": "f", "parameters": {"a": 1}}'' \<and>
   \<not> sublist EOM ''{"name": "f", "parameters": {"a": 1}}'' \<and>
   tools_called (projr (extract_tool_calls ''{"name": "f", "parameters": {"a": 1}}'')) \<and>
   extract_tool_calls_streaming ''{"name": "f", "parameters": {"a": 1}''
     ''{"name": "f", "parameters": {"a": 1}}'' ''}'' [] [] [] = Inr None\<close>
proof -
  have h1: \<open>\<not> sublist EOT ''{"name": "f", "parameters": {"a": 1}}''\<close>
    unfolding contains_sublist[symmetric] by code_simp
  have h2: \<open>\<not> sublist EOM ''{"name": "f", "parameters": {"a": 1}}''\<close>
    unfolding contains_sublist[symmetric] by code_simp
  have h3: \<open>tools_called (projr (extract_tool_calls ''{"name": "f", "parameters": {"a": 1}}''))\<close>
    by code_simp
  show ?thesis
    by (intro conjI h1 h2 h3 streaming_waits_for_terminator[OF h1 h2])
qed

text \<open>
  Claim C6. A buffer that holds a terminator but no match of either pattern: the full
  extraction yields the plain text, and the streaming extraction returns no output; it
  neither raises nor emits a message.
\<close>

theorem streaming_plain_text_is_silent:
  "sublist EOT current_text \<or> sublist EOM current_text \<Longrightarrow>
   search JSON_RE current_text = None \<Longrightarrow> search PY_RE current_text = None \<Longrightarrow>
     extract_tool_calls current_text =
       Inr \<lparr>tools_called = False, tool_calls = [], content = Some current_text\<rparr> \<and>
     extract_tool_calls_streaming previous_text current_text delta_text
       previous_token_ids current_token_ids delta_token_ids = Inr None"
  by (simp add: extract_tool_calls_streaming_def extract_tool_calls_def find_tools_def
        contains_sublist)

theorem streaming_plain_text_is_silent_witness:
  \<open>(sublist EOT ''The weather is fine.<|eot_id|>'' \<or> sublist EOM ''The weather is fine.<|eot_id|>'') \<and>
   search JSON_RE ''The weather is fine.<|eot_id|>'' = None \<and>
   search PY_RE ''The weather is fine.<|eot_id|>'' = None \<and>
   extract_tool_calls_streaming ''The weather is fine.'' ''The weather is fine.<|eot_id|>''
     ''<|eot_id|>'' [] [] [] = Inr None\<close>
proof -
  have h1: \<open>sublist EOT ''The weather is fine.<|eot_id|>'' \<or> sublist EOM ''The weather is fine.<|eot_id|>''\<close>
    unfolding contains_sublist[symmetric] by code_simp
  have h2: \<open>search JSON_RE ''The weather is fine.<|eot_id|>'' = None\<close> by code_simp
  have h3: \<open>search PY_RE ''The weather is fine.<|eot_id|>'' = None\<close> by code_simp
  from streaming_plain_text_is_silent[OF h1 h2 h3]
  have \<open>extract_tool_calls_streaming ''The weather is fine.'' ''The weather is fine.<|eot_id|>''
     ''<|eot_id|>'' [] [] [] = Inr None\<close>
    by blast
  with h1 h2 h3 show ?thesis by blast
qed

text \<open>
  Claim C2. The streaming extraction keeps no state between evaluations. A turn whose
  argument holds the text of a marker, streamed in three deltas: the first buffer is the
  first to hold a marker, has no match yet, and gives no output; the second closes the
  object and the invocation is emitted; the third adds the terminator and the same
  invocation is emitted again. So the turn gives two results, none of them at the first
  evaluation whose buffer holds a marker.
\<close>

theorem streaming_fires_twice:
  \<open>sublist EOM ''{"name": "f", "parameters": {"a": "<|eom_id|>'' \<and>
   extract_tool_calls_streaming
       []
       ''{"name": "f", "parameters": {"a": "<|eom_id|>''
       ''{"name": "f", "parameters": {"a": "<|eom_id|>'' [] [] [] = Inr None \<and>
   extract_tool_calls_streaming
       ''{"name": "f", "parameters": {"a": "<|eom_id|>''
       ''{"name": "f", "parameters": {"a": "<|eom_id|>"}}''
       ''"}}'' [] [] [] =
     Inr (Some \<lparr>delta_role = ''assistant'', delta_content = None,
                delta_tool_calls = [\<lparr>name = ''f'',
                   arguments = Json (JObject [(''a'', JString ''<|eom_id|>'')])\<rparr>]\<rparr>) \<and>
   extract_tool_calls_streaming
       ''{"name": "f", "parameters": {"a": "<|eom_id|>"}}''
       ''{"name": "f", "parameters": {"a": "<|eom_id|>"}}<|eot_id|>''
       ''<|eot_id|>'' [] [] [] =
     Inr (Some \<lparr>delta_role = ''assistant'', delta_content = None,
                delta_tool_calls = [\<lparr>name = ''f'',
                   arguments = Json (JObject [(''a'', JString ''<|eom_id|>'')])\<rparr>]\<rparr>)\<close>
  unfolding contains_sublist[symmetric] by code_simp

section \<open>One invocation at most\<close>

text \<open>
  Claim C7. An outcome never lists more than one tool call. If the structured pattern
  matches anywhere, the outcome is computed from its match at the leftmost position that
  has one, and from nothing else in the text; the call-syntax pattern decides only when
  no position of the text matches the structured pattern, and then again through its
  leftmost match alone; with no match of either, the outcome is the plain text. On
  texts: after the first structured call \<^verbatim>\<open>{"name": "n", "parameters": {...}}\<close> whatever
  follows is ignored, further calls of either encoding included; and the first call in
  call syntax decides in the same way once the structured pattern matches nowhere.
\<close>

theorem at_most_one_invocation:
  \<open>(\<forall>info. extract_tool_calls model_output = Inr info \<longrightarrow>
      length (tool_calls info) \<le> 1 \<and> (tools_called info \<longleftrightarrow> length (tool_calls info) = 1)) \<and>
   (\<forall>m. search JSON_RE model_output = Some m \<longrightarrow>
      (\<exists>i\<le>length model_output. (\<forall>j<i. match_here JSON_RE (drop j model_output) = []) \<and>
         (\<exists>rest ms. match_here JSON_RE (drop i model_output) = (m, rest) # ms)) \<and>
      extract_tool_calls model_output =
        (case json_loads (group m ''params'') of
           Inl e \<Rightarrow> Inl e
         | Inr a \<Rightarrow> Inr \<lparr>tools_called = True,
                        tool_calls = [\<lparr>name = group m ''name'', arguments = Json a\<rparr>],
                        content = None\<rparr>)) \<and>
   (\<forall>m. search JSON_RE model_output = None \<and> search PY_RE model_output = Some m \<longrightarrow>
      (\<forall>i\<le>length model_output. match_here JSON_RE (drop i model_output) = []) \<and>
      (\<exists>i\<le>length model_output. (\<forall>j<i. match_here PY_RE (drop j model_output) = []) \<and>
         (\<exists>rest ms. match_here PY_RE (drop i model_output) = (m, rest) # ms)) \<and>
      extract_tool_calls model_output =
        (case (if strip (group m ''args'') \<noteq> []
               then parse_pairs [] (split CHR '','' (group m ''args''))
               else Inr []) of
           Inl e \<Rightarrow> Inl e
         | Inr kwargs \<Rightarrow> Inr \<lparr>tools_called = True,
                             tool_calls = [\<lparr>name = group m ''name'', arguments = Dict kwargs\<rparr>],
                             content = None\<rparr>)) \<and>
   (search JSON_RE model_output = None \<and> search PY_RE model_output = None \<longrightarrow>
      extract_tool_calls model_output =
        Inr \<lparr>tools_called = False, tool_calls = [], content = Some model_output\<rparr>) \<and>
   (\<not> sublist ''{"name"'' (pre @ butlast ''{"name"'') \<and> nm \<noteq> [] \<and> CHR 0x22 \<notin> set nm \<and>
    \<not> sublist ''}}'' (body @ ''}'') \<longrightarrow>
      extract_tool_calls
          (pre @ ''{"name": "'' @ nm @ ''", "parameters": {'' @ body @ ''}}'' @ post) =
        (case json_loads (''{'' @ body @ ''}'') of
           Inl e \<Rightarrow> Inl e
         | Inr a \<Rightarrow> Inr \<lparr>tools_called = True,
                        tool_calls = [\<lparr>name = nm, arguments = Json a\<rparr>],
                        content = None\<rparr>)) \<and>
   (\<not> sublist PYTHON_TAG (before @ butlast PYTHON_TAG) \<and> fn \<noteq> [] \<and> list_all isword fn \<and>
    CHR '')'' \<notin> set args \<and>
    search JSON_RE (before @ PYTHON_TAG @ fn @ ''.call('' @ args @ '')'' @ after) = None \<longrightarrow>
      extract_tool_calls (before @ PYTHON_TAG @ fn @ ''.call('' @ args @ '')'' @ after) =
        (case (if strip args \<noteq> [] then parse_pairs [] (split CHR '','' args) else Inr []) of
           Inl e \<Rightarrow> Inl e
         | Inr kwargs \<Rightarrow> Inr \<lparr>tools_called = True,
                             tool_calls = [\<lparr>name = fn, arguments = Dict kwargs\<rparr>],
                             content = None\<rparr>))\<close>
proof (intro conjI allI impI)
  fix info assume "extract_tool_calls model_output = Inr info"
  then obtain tools where t: "find_tools model_output = Inr tools"
    and i: "info = (if tools \<noteq> [] then \<lparr>tools_called = True, tool_calls = tools, content = None\<rparr>
                    else \<lparr>tools_called = False, tool_calls = [], content = Some model_output\<rparr>)"
    by (auto simp: extract_tool_calls_def split: sum.splits if_splits)
  from find_tools_length[OF t] have "length tools \<le> 1" .
  then show "length (tool_calls info) \<le> 1"
    and "tools_called info \<longleftrightarrow> length (tool_calls info) = 1"
    using i by (cases tools; simp)+
next
  fix m assume "search JSON_RE model_output = Some m"
  then show "\<exists>i\<le>length model_output. (\<forall>j<i. match_here JSON_RE (drop j model_output) = []) \<and>
         (\<exists>rest ms. match_here JSON_RE (drop i model_output) = (m, rest) # ms)"
    by (rule search_Some_leftmost)
next
  fix m assume "search JSON_RE model_output = Some m"
  then show "extract_tool_calls model_output =
        (case json_loads (group m ''params'') of
           Inl e \<Rightarrow> Inl e
         | Inr a \<Rightarrow> Inr \<lparr>tools_called = True,
                        tool_calls = [\<lparr>name = group m ''name'', arguments = Json a\<rparr>],
                        content = None\<rparr>)"
    by (simp add: extract_tool_calls_def find_tools_def split: sum.splits)
next
  fix m i assume "search JSON_RE model_output = None \<and> search PY_RE model_output = Some m" "i \<le> length model_output"
  then show "match_here JSON_RE (drop i model_output) = []"
    using search_None_iff[of JSON_RE model_output] by blast
next
  fix m assume "search JSON_RE model_output = None \<and> search PY_RE model_output = Some m"
  then show "\<exists>i\<le>length model_output. (\<forall>j<i. match_here PY_RE (drop j model_output) = []) \<and>
         (\<exists>rest ms. match_here PY_RE (drop i model_output) = (m, rest) # ms)"
    using search_Some_leftmost[of PY_RE model_output m] by blast
next
  fix m assume "search JSON_RE model_output = None \<and> search PY_RE model_output = Some m"
  then show "extract_tool_calls model_output =
        (case (if strip (group m ''args'') \<noteq> []
               then parse_pairs [] (split CHR '','' (group m ''args''))
               else Inr []) of
           Inl e \<Rightarrow> Inl e
         | Inr kwargs \<Rightarrow> Inr \<lparr>tools_called = True,
                             tool_calls = [\<lparr>name = group m ''name'', arguments = Dict kwargs\<rparr>],
                             content = None\<rparr>)"
    by (simp add: extract_tool_calls_def find_tools_def split: sum.splits)
next
  assume "search JSON_RE model_output = None \<and> search PY_RE model_output = None"
  then show "extract_tool_calls model_output =
        Inr \<lparr>tools_called = False, tool_calls = [], content = Some model_output\<rparr>"
    by (simp add: extract_tool_calls_def find_tools_def)
next
  assume h: \<open>\<not> sublist ''{"name"'' (pre @ butlast ''{"name"'') \<and> nm \<noteq> [] \<and> CHR 0x22 \<notin> set nm \<and>
    \<not> sublist ''}}'' (body @ ''}'')\<close>
  have sp: "list_all isspace []" \<open>list_all isspace '' ''\<close> by (simp_all add: isspace_def)
  from h have \<open>\<not> sublist ''{"name"'' (pre @ butlast ''{"name"'')\<close> "nm \<noteq> []"
    \<open>CHR 0x22 \<notin> set nm\<close> \<open>\<not> sublist ''}}'' (body @ ''}'')\<close> by blast+
  from structured_call_outcome[OF this(1) sp(1) sp(2) sp(1) sp(2) sp(1) sp(2) this(2-4), of post]
  show \<open>extract_tool_calls
          (pre @ ''{"name": "'' @ nm @ ''", "parameters": {'' @ body @ ''}}'' @ post) =
        (case json_loads (''{'' @ body @ ''}'') of
           Inl e \<Rightarrow> Inl e
         | Inr a \<Rightarrow> Inr \<lparr>tools_called = True,
                        tool_calls = [\<lparr>name = nm, arguments = Json a\<rparr>],
                        content = None\<rparr>)\<close>
    by simp
next
  assume h: \<open>\<not> sublist PYTHON_TAG (before @ butlast PYTHON_TAG) \<and> fn \<noteq> [] \<and> list_all isword fn \<and>
    CHR '')'' \<notin> set args \<and>
    search JSON_RE (before @ PYTHON_TAG @ fn @ ''.call('' @ args @ '')'' @ after) = None\<close>
  then show \<open>extract_tool_calls (before @ PYTHON_TAG @ fn @ ''.call('' @ args @ '')'' @ after) =
        (case (if strip args \<noteq> [] then parse_pairs [] (split CHR '','' args) else Inr []) of
           Inl e \<Rightarrow> Inl e
         | Inr kwargs \<Rightarrow> Inr \<lparr>tools_called = True,
                             tool_calls = [\<lparr>name = fn, arguments = Dict kwargs\<rparr>],
                             content = None\<rparr>)\<close>
    by (intro call_syntax_outcome) blast+
qed

theorem at_most_one_invocation_witness:
  \<open>search JSON_RE ''{"name": "a", "parameters": {}}{"name": "b", "parameters": {"k": 1}}<|python_tag|>c.call(z=1)<|eom_id|>'' =
     Some [(''name'', ''a''), (''params'', ''{}'')] \<and>
   extract_tool_calls ''{"name": "a", "parameters": {}}{"name": "b", "parameters": {"k": 1}}<|python_tag|>c.call(z=1)<|eom_id|>'' =
     Inr \<lparr>tools_called = True, tool_calls = [\<lparr>name = ''a'', arguments = Json (JObject [])\<rparr>],
          content = None\<rparr> \<and>
   length (tool_calls \<lparr>tools_called = True,
             tool_calls = [\<lparr>name = ''a'', arguments = Json (JObject [])\<rparr>], content = None\<rparr>) \<le> 1 \<and>
   search JSON_RE ''<|python_tag|>c.call(z=1)<|python_tag|>d.call()<|eom_id|>'' = None \<and>
   search PY_RE ''<|python_tag|>c.call(z=1)<|python_tag|>d.call()<|eom_id|>'' =
     Some [(''name'', ''c''), (''args'', ''z=1'')] \<and>
   extract_tool_calls ''<|python_tag|>c.call(z=1)<|python_tag|>d.call()<|eom_id|>'' =
     Inr \<lparr>tools_called = True, tool_calls = [\<lparr>name = ''c'', arguments = Dict [(''z'', Str ''1'')]\<rparr>],
          content = None\<rparr> \<and>
   search PY_RE ''no call here'' = None \<and>
   extract_tool_calls ''no call here'' =
     Inr \<lparr>tools_called = False, tool_calls = [], content = Some ''no call here''\<rparr> \<and>
   \<not> sublist ''{"name"'' (''Sure.'' @ butlast ''{"name"'') \<and> CHR 0x22 \<notin> set ''a'' \<and>
   \<not> sublist ''}}'' (''"k": 1'' @ ''}'') \<and>
   extract_tool_calls (''Sure.'' @ ''{"name": "'' @ ''a'' @ ''", "parameters": {'' @ ''"k": 1'' @ ''}}'' @
       ''{"name": "b", "parameters": {}}<|python_tag|>c.call(z=1)<|eom_id|>'') =
     Inr \<lparr>tools_called = True,
          tool_calls = [\<lparr>name = ''a'', arguments = Json (JObject [(''k'', JNumber ''1'')])\<rparr>],
          content = None\<rparr> \<and>
   \<not> sublist PYTHON_TAG (''Ok '' @ butlast PYTHON_TAG) \<and> list_all isword ''c'' \<and>
   CHR '')'' \<notin> set ''z=1'' \<and>
   search JSON_RE (''Ok '' @ PYTHON_TAG @ ''c'' @ ''.call('' @ ''z=1'' @ '')'' @
       ''<|python_tag|>d.call()<|eom_id|>'') = None \<and>
   extract_tool_calls (''Ok '' @ PYTHON_TAG @ ''c'' @ ''.call('' @ ''z=1'' @ '')'' @
       ''<|python_tag|>d.call()<|eom_id|>'') =
     Inr \<lparr>tools_called = True, tool_calls = [\<lparr>name = ''c'', arguments = Dict [(''z'', Str ''1'')]\<rparr>],
          content = None\<rparr>\<close>
proof -
  let ?a = \<open>''{"name": "a", "parameters": {}}{"name": "b", "parameters": {"k": 1}}<|python_tag|>c.call(z=1)<|eom_id|>''\<close>
  let ?c = \<open>''<|python_tag|>c.call(z=1)<|python_tag|>d.call()<|eom_id|>''\<close>
  let ?ma = \<open>[(''name'', ''a''), (''params'', ''{}'')]\<close>
  let ?mc = \<open>[(''name'', ''c''), (''args'', ''z=1'')]\<close>
  have a1: "search JSON_RE ?a = Some ?ma" by code_simp
  have a2: \<open>(case json_loads (group ?ma ''params'') of
           Inl e \<Rightarrow> Inl e
         | Inr a \<Rightarrow> Inr \<lparr>tools_called = True,
                        tool_calls = [\<lparr>name = group ?ma ''name'', arguments = Json a\<rparr>],
                        content = None\<rparr>) =
      Inr \<lparr>tools_called = True, tool_calls = [\<lparr>name = ''a'', arguments = Json (JObject [])\<rparr>],
          content = None\<rparr>\<close> by code_simp
  from at_most_one_invocation[of ?a] a1
  have a3: "extract_tool_calls ?a =
     Inr \<lparr>tools_called = True, tool_calls = [\<lparr>name = ''a'', arguments = Json (JObject [])\<rparr>],
          content = None\<rparr>"
    unfolding a2[symmetric] by blast
  from at_most_one_invocation[of ?a] a3
  have a4: "length (tool_calls \<lparr>tools_called = True,
             tool_calls = [\<lparr>name = ''a'', arguments = Json (JObject [])\<rparr>], content = None\<rparr>) \<le> 1"
    by blast
  have c1: "search JSON_RE ?c = None" by code_simp
  have c2: "search PY_RE ?c = Some ?mc" by code_simp
  have c3: \<open>(case (if strip (group ?mc ''args'') \<noteq> []
               then parse_pairs [] (split CHR '','' (group ?mc ''args''))
               else Inr []) of
           Inl e \<Rightarrow> Inl e
         | Inr kwargs \<Rightarrow> Inr \<lparr>tools_called = True,
                             tool_calls = [\<lparr>name = group ?mc ''name'', arguments = Dict kwargs\<rparr>],
                             content = None\<rparr>) =
     Inr \<lparr>tools_called = True, tool_calls = [\<lparr>name = ''c'', arguments = Dict [(''z'', Str ''1'')]\<rparr>],
          content = None\<rparr>\<close> by code_simp
  from at_most_one_invocation[of ?c] c1 c2
  have c4: "extract_tool_calls ?c =
     Inr \<lparr>tools_called = True, tool_calls = [\<lparr>name = ''c'', arguments = Dict [(''z'', Str ''1'')]\<rparr>],
          content = None\<rparr>"
    unfolding c3[symmetric] by blast
  have n1: "search JSON_RE ''no call here'' = None" by code_simp
  have n2: "search PY_RE ''no call here'' = None" by code_simp
  from at_most_one_invocation[of "''no call here''"] n1 n2
  have n3: "extract_tool_calls ''no call here'' =
     Inr \<lparr>tools_called = False, tool_calls = [], content = Some ''no call here''\<rparr>"
    by blast
  have j1: \<open>\<not> sublist ''{"name"'' (''Sure.'' @ butlast ''{"name"'')\<close>
    unfolding contains_sublist[symmetric] by code_simp
  have j2: \<open>''a'' \<noteq> []\<close> by simp
  have j3: \<open>CHR 0x22 \<notin> set ''a''\<close> by simp
  have j4: \<open>\<not> sublist ''}}'' (''"k": 1'' @ ''}'')\<close>
    unfolding contains_sublist[symmetric] by code_simp
  have j5: \<open>(case json_loads (''{'' @ ''"k": 1'' @ ''}'') of
           Inl e \<Rightarrow> Inl e
         | Inr a \<Rightarrow> Inr \<lparr>tools_called = True,
                        tool_calls = [\<lparr>name = ''a'', arguments = Json a\<rparr>],
                        content = None\<rparr>) =
     Inr \<lparr>tools_called = True,
          tool_calls = [\<lparr>name = ''a'', arguments = Json (JObject [(''k'', JNumber ''1'')])\<rparr>],
          content = None\<rparr>\<close> by code_simp
  from at_most_one_invocation[where pre = \<open>''Sure.''\<close> and nm = \<open>''a''\<close> and body = \<open>''"k": 1''\<close>
      and post = \<open>''{"name": "b", "parameters": {}}<|python_tag|>c.call(z=1)<|eom_id|>''\<close>]
    j1 j2 j3 j4
  have j6: \<open>extract_tool_calls (''Sure.'' @ ''{"name": "'' @ ''a'' @ ''", "parameters": {'' @ ''"k": 1'' @ ''}}'' @
       ''{"name": "b", "parameters": {}}<|python_tag|>c.call(z=1)<|eom_id|>'') =
     Inr \<lparr>tools_called = True,
          tool_calls = [\<lparr>name = ''a'', arguments = Json (JObject [(''k'', JNumber ''1'')])\<rparr>],
          content = None\<rparr>\<close>
    unfolding j5[symmetric] by blast
  have p1: \<open>\<not> sublist PYTHON_TAG (''Ok '' @ butlast PYTHON_TAG)\<close>
    unfolding contains_sublist[symmetric] by code_simp
  have p2: \<open>''c'' \<noteq> []\<close> by simp
  have p3: \<open>list_all isword ''c''\<close> by code_simp
  have p4: \<open>CHR '')'' \<notin> set ''z=1''\<close> by simp
  have p5: \<open>search JSON_RE (''Ok '' @ PYTHON_TAG @ ''c'' @ ''.call('' @ ''z=1'' @ '')'' @
       ''<|python_tag|>d.call()<|eom_id|>'') = None\<close> by code_simp
  have p6: \<open>(case (if strip ''z=1'' \<noteq> [] then parse_pairs [] (split CHR '','' ''z=1'') else Inr []) of
           Inl e \<Rightarrow> Inl e
         | Inr kwargs \<Rightarrow> Inr \<lparr>tools_called = True,
                             tool_calls = [\<lparr>name = ''c'', arguments = Dict kwargs\<rparr>],
                             content = None\<rparr>) =
     Inr \<lparr>tools_called = True, tool_calls = [\<lparr>name = ''c'', arguments = Dict [(''z'', Str ''1'')]\<rparr>],
          content = None\<rparr>\<close> by code_simp
  from at_most_one_invocation[where before = \<open>''Ok ''\<close> and fn = \<open>''c''\<close> and args = \<open>''z=1''\<close>
      and after = \<open>''<|python_tag|>d.call()<|eom_id|>''\<close>]
    p1 p2 p3 p4 p5
  have p7: \<open>extract_tool_calls (''Ok '' @ PYTHON_TAG @ ''c'' @ ''.call('' @ ''z=1'' @ '')'' @
       ''<|python_tag|>d.call()<|eom_id|>'') =
     Inr \<lparr>tools_called = True, tool_calls = [\<lparr>name = ''c'', arguments = Dict [(''z'', Str ''1'')]\<rparr>],
          content = None\<rparr>\<close>
    unfolding p6[symmetric] by blast
  show ?thesis
    by (intro conjI a1 a3 a4 c1 c2 c4 n2 n3 j1 j3 j4 j6 p1 p3 p4 p5 p7)
qed


end
